theory Spec2Isabelle
  imports Main "HOL-Library.Word"
begin

section \<open>Machine types\<close>

type_synonym u8 = "8 word"
type_synonym u32 = "32 word"

section \<open>Tuner link, inbound: \<open>rtt_tuner_receive\<close>\<close>

text \<open>
  The receive hook keeps two function-local statics, \<open>data_index\<close> (a \<open>uint32_t\<close>)
  and \<open>command_packet\<close> (a \<open>uint8_t[16]\<close>), and stores through its two pointer
  parameters \<open>packet\<close> and \<open>tuner_packet\<close>. The statics are a record that is passed
  in and returned; the two cells the parameters point to are a second record.
  An access outside the array is undefined behaviour in C; here it is the value
  \<open>Inl OutOfBounds\<close>.
\<close>

datatype fault = OutOfBounds

datatype ptr = NULL | Addr_command_packet | Addr_cy_capsense_tuner | Addr_other nat

record rx_static =
  data_index :: u32
  command_packet :: "u8 list"

record rx_out =
  packet :: ptr
  tuner_packet :: ptr

text \<open>\<open>static uint32_t data_index = 0u; static uint8_t command_packet[16u] = {0u};\<close>\<close>

definition rx_static_init :: rx_static where
  "rx_static_init = \<lparr>data_index = 0, command_packet = replicate 16 0\<rparr>"

text \<open>
  The inner \<open>for\<close> loop of the failure branch, started at \<open>i\<close>:
  \<open>for (; i < (CY_CAPSENSE_COMMAND_PACKET_SIZE - 1u); i++) command_packet[i] = command_packet[i + 1u];\<close>
  The macro \<open>CY_CAPSENSE_COMMAND_PACKET_SIZE\<close> is declared by the sensing middleware, not
  by this file; it is the parameter \<open>N\<close> throughout.
\<close>

function shift_loop :: "u32 \<Rightarrow> u32 \<Rightarrow> u8 list \<Rightarrow> fault + u8 list" where
  "shift_loop N i cp =
     (if i < N - 1 then
        (if unat i < length cp \<and> unat (i + 1) < length cp
         then shift_loop N (i + 1) (cp[unat i := cp ! unat (i + 1)])
         else Inl OutOfBounds)
      else Inr cp)"
  by pat_completeness auto
termination
proof (relation "measure (\<lambda>(N, i, cp). unat (N - 1) - unat i)")
  show "wf (measure (\<lambda>(N :: u32, i :: u32, cp :: u8 list). unat (N - 1) - unat i))"
    by simp
next
  fix N i :: u32 and cp :: "u8 list"
  assume lt: "i < N - 1"
  then have "unat i < unat (N - 1)"
    by (simp add: word_less_nat_alt)
  moreover from lt have "unat (i + 1) = unat i + 1"
    by unat_arith
  ultimately show "((N, i + 1, cp[unat i := cp ! unat (i + 1)]), (N, i, cp))
      \<in> measure (\<lambda>(N, i, cp). unat (N - 1) - unat i)"
    by simp
qed

text \<open>
  The three ways through one iteration of the \<open>while\<close> loop: the byte is stored and the
  window is not yet full; the full window passes the integrity check (the \<open>break\<close>);
  the full window fails it and is shifted.
\<close>

datatype path = Stored | Accepted | Resynced

text \<open>
  One iteration of the \<open>while\<close> body on the byte just read.
  \<open>Cy_CapSense_CheckTunerCmdIntegrity\<close> belongs to the sensing middleware; it is the
  parameter \<open>chk\<close>, applied to the array it is given the address of, and \<open>True\<close> stands
  for \<open>CY_CAPSENSE_COMMAND_OK\<close>.
\<close>

definition rx_body ::
  "u32 \<Rightarrow> (u8 list \<Rightarrow> bool) \<Rightarrow> rx_static \<Rightarrow> rx_out \<Rightarrow> u8 \<Rightarrow> fault + (path \<times> rx_static \<times> rx_out)" where
  "rx_body N chk s out byte =
     (if unat (data_index s) < length (command_packet s) then
        (let cp = (command_packet s)[unat (data_index s) := byte];
             di = data_index s + 1
         in if N = di then
              (if chk cp then
                 Inr (Accepted,
                      \<lparr>data_index = 0, command_packet = cp\<rparr>,
                      out\<lparr>tuner_packet := Addr_cy_capsense_tuner, packet := Addr_command_packet\<rparr>)
               else
                 (case shift_loop N 0 cp of
                    Inl e \<Rightarrow> Inl e
                  | Inr cp' \<Rightarrow> Inr (Resynced, \<lparr>data_index = di - 1, command_packet = cp'\<rparr>, out)))
            else Inr (Stored, \<lparr>data_index = di, command_packet = cp\<rparr>, out))
      else Inl OutOfBounds)"

text \<open>
  The hook. The last argument is the bytes \<open>SEGGER_RTT_HasData\<close> reports and
  \<open>SEGGER_RTT_Read\<close> delivers, oldest first; the result carries the bytes left unread in
  the transport.
\<close>

fun rtt_tuner_receive ::
  "u32 \<Rightarrow> (u8 list \<Rightarrow> bool) \<Rightarrow> rx_static \<Rightarrow> rx_out \<Rightarrow> u8 list \<Rightarrow> fault + (rx_static \<times> rx_out \<times> u8 list)" where
  "rtt_tuner_receive N chk s out [] = Inr (s, out, [])"
| "rtt_tuner_receive N chk s out (byte # avail) =
     (case rx_body N chk s out byte of
        Inl e \<Rightarrow> Inl e
      | Inr (p, s', out') \<Rightarrow>
          (if p = Accepted then Inr (s', out', avail)
           else rtt_tuner_receive N chk s' out' avail))"

text \<open>The path each iteration of that run takes, in order.\<close>

fun rtt_tuner_receive_paths ::
  "u32 \<Rightarrow> (u8 list \<Rightarrow> bool) \<Rightarrow> rx_static \<Rightarrow> rx_out \<Rightarrow> u8 list \<Rightarrow> path list" where
  "rtt_tuner_receive_paths N chk s out [] = []"
| "rtt_tuner_receive_paths N chk s out (byte # avail) =
     (case rx_body N chk s out byte of
        Inl e \<Rightarrow> []
      | Inr (p, s', out') \<Rightarrow>
          (if p = Accepted then [p]
           else p # rtt_tuner_receive_paths N chk s' out' avail))"

text \<open>
  Drivers for sequences of invocations. The engine calls the hook once per cycle; bytes
  the hook left unread are still in the transport at the next call, in front of the
  bytes that arrived since. Only the statics are carried from one call to the next; the
  cells are handed in as \<open>NULL\<close> and what the hook left in them is dropped.
\<close>

fun rx_session ::
  "u32 \<Rightarrow> (u8 list \<Rightarrow> bool) \<Rightarrow> rx_static \<Rightarrow> u8 list \<Rightarrow> u8 list list \<Rightarrow> fault + (rx_static \<times> u8 list)" where
  "rx_session N chk s pending [] = Inr (s, pending)"
| "rx_session N chk s pending (arrived # later) =
     (case rtt_tuner_receive N chk s \<lparr>packet = NULL, tuner_packet = NULL\<rparr> (pending @ arrived) of
        Inl e \<Rightarrow> Inl e
      | Inr (s', out', unread) \<Rightarrow> rx_session N chk s' unread later)"

text \<open>One byte per invocation.\<close>

definition feed_bytes ::
  "u32 \<Rightarrow> (u8 list \<Rightarrow> bool) \<Rightarrow> rx_static \<Rightarrow> u8 list \<Rightarrow> fault + (rx_static \<times> u8 list)" where
  "feed_bytes N chk s bytes = rx_session N chk s [] (map (\<lambda>b. [b]) bytes)"

section \<open>Tuner link, outbound: \<open>rtt_tuner_send\<close>\<close>

definition RTT_TX_HEADER0 :: u8 where "RTT_TX_HEADER0 = 0x0D"
definition RTT_TX_HEADER1 :: u8 where "RTT_TX_HEADER1 = 0x0A"
definition RTT_TX_TAIL0 :: u8 where "RTT_TX_TAIL0 = 0x00"
definition RTT_TX_TAIL1 :: u8 where "RTT_TX_TAIL1 = 0xFF"
definition RTT_TX_TAIL2 :: u8 where "RTT_TX_TAIL2 = 0xFF"

text \<open>
  \<open>rtt_tuner_data_t\<close>: three \<open>uint8_t\<close> arrays, so the object is its fields one after the
  other with no padding.
\<close>

record rtt_tuner_data_t =
  header :: "u8 list"
  tuner_data :: "u8 list"
  tail :: "u8 list"

definition envelope :: "rtt_tuner_data_t \<Rightarrow> u8 list" where
  "envelope b = header b @ tuner_data b @ tail b"

text \<open>The two fields of \<open>_SEGGER_RTT.aUp[RTT_TUNER_CHANNEL]\<close> the hook stores to.\<close>

record SEGGER_RTT_BUFFER_UP =
  RdOff :: u32
  WrOff :: u32

text \<open>
  The globals the send hook touches. \<open>cy_capsense_tuner\<close> is the engine's telemetry
  object, read as its bytes; \<open>sizeof(cy_capsense_tuner)\<close> is their number. \<open>rtt_lock\<close>
  says whether the transport lock is held.
\<close>

record tx_state =
  rtt_lock :: bool
  aUp_tuner :: SEGGER_RTT_BUFFER_UP
  tuner_up_buf :: rtt_tuner_data_t
  cy_capsense_tuner :: "u8 list"

text \<open>
  The static initialiser of \<open>tuner_up_buf\<close>, with the descriptor as
  \<open>SEGGER_RTT_ConfigUpBuffer\<close> leaves it, for a telemetry object holding \<open>snap\<close>.
\<close>

definition tx_init :: "u8 list \<Rightarrow> tx_state" where
  "tx_init snap =
     \<lparr>rtt_lock = False,
      aUp_tuner = \<lparr>RdOff = 0, WrOff = 0\<rparr>,
      tuner_up_buf =
        \<lparr>header = [RTT_TX_HEADER0, RTT_TX_HEADER1],
         tuner_data = replicate (length snap) 0,
         tail = [RTT_TX_TAIL0, RTT_TX_TAIL1, RTT_TX_TAIL2]\<rparr>,
      cy_capsense_tuner = snap\<rparr>"

text \<open>\<open>sizeof(tuner_up_buf)\<close>: two header bytes, the payload, three trailer bytes.\<close>

definition sizeof_tuner_up_buf :: "tx_state \<Rightarrow> nat" where
  "sizeof_tuner_up_buf st = 2 + length (cy_capsense_tuner st) + 3"

text \<open>\<open>memcpy(dst, src, n)\<close>: the first \<open>n\<close> bytes of \<open>dst\<close> become those of \<open>src\<close>.\<close>

definition memcpy :: "u8 list \<Rightarrow> u8 list \<Rightarrow> nat \<Rightarrow> u8 list" where
  "memcpy dst src n = take n src @ drop n dst"

text \<open>
  Modelled from the spec: \<open>SEGGER_RTT_LOCK\<close> and \<open>SEGGER_RTT_UNLOCK\<close> are macros of the
  transport library, not of this file. The spec describes them as a scoped lock on the
  transport's outbound-buffer metadata, acquired and then released; \<open>RTT_LOCK\<close> sets the
  flag \<open>rtt_lock\<close> and \<open>RTT_UNLOCK\<close> clears it. The other three operations are the
  statements of the hook between the two.
\<close>

datatype tx_op =
    RTT_LOCK
  | Store_RdOff u32
  | Store_WrOff u32
  | Memcpy_tuner_data nat
  | RTT_UNLOCK

fun exec_tx_op :: "tx_state \<Rightarrow> tx_op \<Rightarrow> tx_state" where
  "exec_tx_op st RTT_LOCK = st\<lparr>rtt_lock := True\<rparr>"
| "exec_tx_op st (Store_RdOff v) = st\<lparr>aUp_tuner := (aUp_tuner st)\<lparr>RdOff := v\<rparr>\<rparr>"
| "exec_tx_op st (Store_WrOff v) = st\<lparr>aUp_tuner := (aUp_tuner st)\<lparr>WrOff := v\<rparr>\<rparr>"
| "exec_tx_op st (Memcpy_tuner_data n) =
     st\<lparr>tuner_up_buf := (tuner_up_buf st)
          \<lparr>tuner_data := memcpy (tuner_data (tuner_up_buf st)) (cy_capsense_tuner st) n\<rparr>\<rparr>"
| "exec_tx_op st RTT_UNLOCK = st\<lparr>rtt_lock := False\<rparr>"

definition rtt_tuner_send_ops :: "tx_state \<Rightarrow> tx_op list" where
  "rtt_tuner_send_ops st =
     [RTT_LOCK,
      Store_RdOff 0,
      Store_WrOff (of_nat (sizeof_tuner_up_buf st)),
      Memcpy_tuner_data (length (cy_capsense_tuner st)),
      RTT_UNLOCK]"

definition rtt_tuner_send :: "tx_state \<Rightarrow> tx_state" where
  "rtt_tuner_send st = foldl exec_tx_op st (rtt_tuner_send_ops st)"

text \<open>
  One cycle as the send hook sees it: the engine's processing step has left \<open>snap\<close> in
  the telemetry object, then the tuner synchronisation calls the hook.
\<close>

definition tuner_cycle :: "tx_state \<Rightarrow> u8 list \<Rightarrow> tx_state" where
  "tuner_cycle st snap = rtt_tuner_send (st\<lparr>cy_capsense_tuner := snap\<rparr>)"

section \<open>Scan scheduler: \<open>main\<close> and \<open>initialize_capsense\<close>\<close>

text \<open>
  Modelled from the spec: \<open>CY_RSLT_SUCCESS\<close> and \<open>CY_CAPSENSE_STATUS_SUCCESS\<close> are
  macros of the SDK. The spec tells a status that is success from one that is not; the
  code compares 32-bit result codes with the two macros, both zero in the SDK.
\<close>

definition CY_RSLT_SUCCESS :: u32 where "CY_RSLT_SUCCESS = 0"
definition CY_CAPSENSE_STATUS_SUCCESS :: u32 where "CY_CAPSENSE_STATUS_SUCCESS = 0"

text \<open>
  The program is observed through the calls it makes, in order. The result codes of
  \<open>cybsp_init\<close>, \<open>Cy_CapSense_Init\<close> and \<open>Cy_CapSense_Enable\<close> are inputs.
\<close>

datatype call =
    SEGGER_RTT_Init
  | SEGGER_RTT_ConfigUpBuffer
  | SEGGER_RTT_ConfigDownBuffer
  | Cybsp_init
  | CY_ASSERT_failed
  | Enable_irq
  | Cy_CapSense_Init
  | Cy_SysInt_Init
  | NVIC_ClearPendingIRQ
  | NVIC_EnableIRQ
  | Cy_CapSense_Enable
  | Initialize_capsense_tuner
  | Cy_CapSense_ScanAllWidgets
  | Cy_CapSense_IsBusy bool
  | Cy_CapSense_ProcessAllWidgets
  | Cy_CapSense_RunTuner

text \<open>
  \<open>initialize_capsense\<close>: the calls made and the final value of \<open>status\<close>. The last
  \<open>if (status != CY_CAPSENSE_STATUS_SUCCESS)\<close> has an empty body, so the function
  returns to its caller on every status.
\<close>

definition initialize_capsense :: "u32 \<Rightarrow> u32 \<Rightarrow> call list \<times> u32" where
  "initialize_capsense init_status enable_status =
     (if CY_CAPSENSE_STATUS_SUCCESS = init_status
      then ([Cy_CapSense_Init, Cy_SysInt_Init, NVIC_ClearPendingIRQ, NVIC_EnableIRQ,
             Cy_CapSense_Enable], enable_status)
      else ([Cy_CapSense_Init], init_status))"

text \<open>
  The \<open>for (;;)\<close> loop, one iteration per element of the list: the element is what
  \<open>Cy_CapSense_IsBusy\<close> answers in that iteration (\<open>True\<close> for busy). The loop has no
  exit; a list of \<open>n\<close> answers gives the calls of its first \<open>n\<close> iterations.
\<close>

fun main_loop :: "bool list \<Rightarrow> call list" where
  "main_loop [] = []"
| "main_loop (busy # polls) =
     Cy_CapSense_IsBusy busy #
     (if \<not> busy
      then [Cy_CapSense_ProcessAllWidgets, Cy_CapSense_RunTuner, Cy_CapSense_ScanAllWidgets]
      else []) @ main_loop polls"

text \<open>
  Modelled from the spec: \<open>CY_ASSERT\<close> is a macro of the SDK. The spec calls it a hard
  assertion that halts the system, and the comment at its only call says that program
  execution stops; so \<open>main\<close> ends in \<open>Halted\<close> there, with the calls made so far. In
  \<open>Scanning\<close> the loop has been entered and is still running.
\<close>

datatype run = Halted "call list" | Scanning "call list"

definition main :: "u32 \<Rightarrow> u32 \<Rightarrow> u32 \<Rightarrow> bool list \<Rightarrow> run" where
  "main bsp_result init_status enable_status polls =
     (let startup = [SEGGER_RTT_Init, SEGGER_RTT_ConfigUpBuffer, SEGGER_RTT_ConfigDownBuffer,
                     Cybsp_init]
      in if bsp_result \<noteq> CY_RSLT_SUCCESS then Halted (startup @ [CY_ASSERT_failed])
         else Scanning (startup @ [Enable_irq]
                @ fst (initialize_capsense init_status enable_status)
                @ [Initialize_capsense_tuner, Cy_CapSense_ScanAllWidgets]
                @ main_loop polls))"

section \<open>Properties of the scan scheduler\<close>

lemma initialize_capsense_returns:
  "CY_ASSERT_failed \<notin> set (fst (initialize_capsense init_status enable_status))"
  by (simp add: initialize_capsense_def)

text \<open>
  C1, as stated, fails on the code. With board initialisation successful, a failing
  \<open>Cy_CapSense_Init\<close> (status 1), and likewise a failing \<open>Cy_CapSense_Enable\<close>, is
  followed by the tuner initialisation, the first scan and a complete cycle of the
  loop: no assertion is reached.
\<close>

theorem engine_init_failure_enters_loop:
  "(1 :: u32) \<noteq> CY_CAPSENSE_STATUS_SUCCESS \<and>
   main CY_RSLT_SUCCESS 1 CY_CAPSENSE_STATUS_SUCCESS [False] =
     Scanning [SEGGER_RTT_Init, SEGGER_RTT_ConfigUpBuffer, SEGGER_RTT_ConfigDownBuffer,
       Cybsp_init, Enable_irq, Cy_CapSense_Init, Initialize_capsense_tuner,
       Cy_CapSense_ScanAllWidgets, Cy_CapSense_IsBusy False, Cy_CapSense_ProcessAllWidgets,
       Cy_CapSense_RunTuner, Cy_CapSense_ScanAllWidgets] \<and>
   main CY_RSLT_SUCCESS CY_CAPSENSE_STATUS_SUCCESS 1 [False] =
     Scanning [SEGGER_RTT_Init, SEGGER_RTT_ConfigUpBuffer, SEGGER_RTT_ConfigDownBuffer,
       Cybsp_init, Enable_irq, Cy_CapSense_Init, Cy_SysInt_Init, NVIC_ClearPendingIRQ,
       NVIC_EnableIRQ, Cy_CapSense_Enable, Initialize_capsense_tuner,
       Cy_CapSense_ScanAllWidgets, Cy_CapSense_IsBusy False, Cy_CapSense_ProcessAllWidgets,
       Cy_CapSense_RunTuner, Cy_CapSense_ScanAllWidgets]"
  by (simp add: main_def initialize_capsense_def CY_RSLT_SUCCESS_def
      CY_CAPSENSE_STATUS_SUCCESS_def)

text \<open>
  C1, amended. The hard assertion guards board initialisation only. When \<open>cybsp_init\<close>
  fails, the program makes the three transport calls and the board call, halts at the
  assertion, and calls nothing else: no engine call, no scan. When it succeeds, the
  program never reaches the assertion and enters the scan loop for every status of
  \<open>Cy_CapSense_Init\<close> and \<open>Cy_CapSense_Enable\<close>: interrupts are enabled, the engine
  init is called, then the tuner initialisation and the first scan, then the loop. A
  failing init skips exactly \<open>Cy_SysInt_Init\<close>, \<open>NVIC_ClearPendingIRQ\<close>,
  \<open>NVIC_EnableIRQ\<close> and \<open>Cy_CapSense_Enable\<close>; a failing enable skips nothing.
  \<open>initialize_capsense\<close> returns on every status, with the status of the last engine
  call it made.
\<close>

theorem halt_only_on_board_init_failure:
  "(bsp \<noteq> CY_RSLT_SUCCESS \<longrightarrow>
      main bsp init_status enable_status polls =
        Halted [SEGGER_RTT_Init, SEGGER_RTT_ConfigUpBuffer, SEGGER_RTT_ConfigDownBuffer,
                Cybsp_init, CY_ASSERT_failed]) \<and>
   (bsp = CY_RSLT_SUCCESS \<and> init_status \<noteq> CY_CAPSENSE_STATUS_SUCCESS \<longrightarrow>
      main bsp init_status enable_status polls =
        Scanning ([SEGGER_RTT_Init, SEGGER_RTT_ConfigUpBuffer, SEGGER_RTT_ConfigDownBuffer,
                   Cybsp_init, Enable_irq, Cy_CapSense_Init, Initialize_capsense_tuner,
                   Cy_CapSense_ScanAllWidgets] @ main_loop polls)) \<and>
   (bsp = CY_RSLT_SUCCESS \<and> init_status = CY_CAPSENSE_STATUS_SUCCESS \<longrightarrow>
      main bsp init_status enable_status polls =
        Scanning ([SEGGER_RTT_Init, SEGGER_RTT_ConfigUpBuffer, SEGGER_RTT_ConfigDownBuffer,
                   Cybsp_init, Enable_irq, Cy_CapSense_Init, Cy_SysInt_Init,
                   NVIC_ClearPendingIRQ, NVIC_EnableIRQ, Cy_CapSense_Enable,
                   Initialize_capsense_tuner, Cy_CapSense_ScanAllWidgets] @ main_loop polls)) \<and>
   fst (initialize_capsense init_status enable_status) =
     (if init_status = CY_CAPSENSE_STATUS_SUCCESS
      then [Cy_CapSense_Init, Cy_SysInt_Init, NVIC_ClearPendingIRQ, NVIC_EnableIRQ,
            Cy_CapSense_Enable]
      else [Cy_CapSense_Init]) \<and>
   snd (initialize_capsense init_status enable_status) =
     (if init_status = CY_CAPSENSE_STATUS_SUCCESS then enable_status else init_status)"
  by (auto simp add: main_def initialize_capsense_def)

text \<open>
  Witness for C1, amended: a failing board initialisation (result 1); a successful one
  followed by a failing engine init (status 1); a successful one followed by a
  successful init and a failing enable (status 1).
\<close>

theorem halt_only_on_board_init_failure_witness:
  "main 1 0 0 [False] =
     Halted [SEGGER_RTT_Init, SEGGER_RTT_ConfigUpBuffer, SEGGER_RTT_ConfigDownBuffer,
             Cybsp_init, CY_ASSERT_failed] \<and>
   main 0 1 0 [False] =
     Scanning ([SEGGER_RTT_Init, SEGGER_RTT_ConfigUpBuffer, SEGGER_RTT_ConfigDownBuffer,
                Cybsp_init, Enable_irq, Cy_CapSense_Init, Initialize_capsense_tuner,
                Cy_CapSense_ScanAllWidgets] @ main_loop [False]) \<and>
   main 0 0 1 [False] =
     Scanning ([SEGGER_RTT_Init, SEGGER_RTT_ConfigUpBuffer, SEGGER_RTT_ConfigDownBuffer,
                Cybsp_init, Enable_irq, Cy_CapSense_Init, Cy_SysInt_Init,
                NVIC_ClearPendingIRQ, NVIC_EnableIRQ, Cy_CapSense_Enable,
                Initialize_capsense_tuner, Cy_CapSense_ScanAllWidgets] @ main_loop [False]) \<and>
   snd (initialize_capsense 0 1) = 1"
  using halt_only_on_board_init_failure [of 1 0 0 "[False]"]
    halt_only_on_board_init_failure [of 0 1 0 "[False]"]
    halt_only_on_board_init_failure [of 0 0 1 "[False]"]
  by (simp add: CY_RSLT_SUCCESS_def CY_CAPSENSE_STATUS_SUCCESS_def)

text \<open>
  C9. In the calls of any number of loop iterations, whatever the engine answers to the
  busy polls: every call of the process step comes directly after a poll that answered
  not busy, and every scan the loop triggers comes directly after that poll, the
  process step and the tuner synchronisation, in this order.
\<close>

theorem scheduler_ordering:
  "(main_loop polls = pre @ Cy_CapSense_ProcessAllWidgets # post \<longrightarrow>
      (\<exists>pre'. pre = pre' @ [Cy_CapSense_IsBusy False])) \<and>
   (main_loop polls = pre @ Cy_CapSense_ScanAllWidgets # post \<longrightarrow>
      (\<exists>pre'. pre = pre' @ [Cy_CapSense_IsBusy False, Cy_CapSense_ProcessAllWidgets,
                             Cy_CapSense_RunTuner]))"
proof (induction polls arbitrary: pre)
  case Nil
  then show ?case by simp
next
  case (Cons busy polls)
  show ?case
    using Cons.IH
    by (cases busy) (auto simp add: Cons_eq_append_conv)
qed

text \<open>
  Witness for C9: a busy poll, then an idle one. The process step and the scan of the
  second iteration are found where the theorem says.
\<close>

theorem scheduler_ordering_witness:
  "main_loop [True, False] =
     [Cy_CapSense_IsBusy True, Cy_CapSense_IsBusy False] @
     Cy_CapSense_ProcessAllWidgets # [Cy_CapSense_RunTuner, Cy_CapSense_ScanAllWidgets] \<and>
   (\<exists>pre'. [Cy_CapSense_IsBusy True, Cy_CapSense_IsBusy False] =
            pre' @ [Cy_CapSense_IsBusy False]) \<and>
   main_loop [True, False] =
     [Cy_CapSense_IsBusy True, Cy_CapSense_IsBusy False, Cy_CapSense_ProcessAllWidgets,
      Cy_CapSense_RunTuner] @ Cy_CapSense_ScanAllWidgets # [] \<and>
   (\<exists>pre'. [Cy_CapSense_IsBusy True, Cy_CapSense_IsBusy False, Cy_CapSense_ProcessAllWidgets,
             Cy_CapSense_RunTuner] =
            pre' @ [Cy_CapSense_IsBusy False, Cy_CapSense_ProcessAllWidgets,
                    Cy_CapSense_RunTuner])"
  using scheduler_ordering [of "[True, False]"
      "[Cy_CapSense_IsBusy True, Cy_CapSense_IsBusy False]"
      "[Cy_CapSense_RunTuner, Cy_CapSense_ScanAllWidgets]"]
    scheduler_ordering [of "[True, False]"
      "[Cy_CapSense_IsBusy True, Cy_CapSense_IsBusy False, Cy_CapSense_ProcessAllWidgets,
        Cy_CapSense_RunTuner]" "[]"]
  by simp

section \<open>Properties of the send hook\<close>

text \<open>The hook as one state update.\<close>

lemma rtt_tuner_send_eq:
  "rtt_tuner_send st =
     st\<lparr>rtt_lock := False,
        aUp_tuner := (aUp_tuner st)\<lparr>RdOff := 0, WrOff := of_nat (sizeof_tuner_up_buf st)\<rparr>,
        tuner_up_buf := (tuner_up_buf st)
          \<lparr>tuner_data := cy_capsense_tuner st
              @ drop (length (cy_capsense_tuner st)) (tuner_data (tuner_up_buf st))\<rparr>\<rparr>"
  by (simp add: rtt_tuner_send_def rtt_tuner_send_ops_def memcpy_def)

lemma tuner_cycle_frame:
  "header (tuner_up_buf (tuner_cycle st snap)) = header (tuner_up_buf st) \<and>
   tail (tuner_up_buf (tuner_cycle st snap)) = tail (tuner_up_buf st) \<and>
   length (tuner_data (tuner_up_buf (tuner_cycle st snap)))
     = max (length snap) (length (tuner_data (tuner_up_buf st)))"
  by (simp add: tuner_cycle_def rtt_tuner_send_eq)

lemma cycles_frame:
  "header (tuner_up_buf (foldl tuner_cycle st snaps)) = header (tuner_up_buf st) \<and>
   tail (tuner_up_buf (foldl tuner_cycle st snaps)) = tail (tuner_up_buf st)"
  by (induction snaps arbitrary: st) (simp_all add: tuner_cycle_frame)

lemma cycles_length:
  "\<forall>sn \<in> set snaps. length sn = length (tuner_data (tuner_up_buf st)) \<Longrightarrow>
   length (tuner_data (tuner_up_buf (foldl tuner_cycle st snaps)))
     = length (tuner_data (tuner_up_buf st))"
  by (induction snaps arbitrary: st) (simp_all add: tuner_cycle_frame)

text \<open>
  C6. After startup and any number of earlier cycles (the telemetry object has one size
  \<open>S\<close>, that of \<open>snap0\<close>, throughout), a send hook call with the telemetry object holding
  \<open>snap\<close> leaves the envelope equal to 0x0D, 0x0A, the \<open>S\<close> bytes of \<open>snap\<close>, then 0x00,
  0xFF, 0xFF.
\<close>

theorem outbound_envelope:
  assumes "\<forall>sn \<in> set snaps. length sn = length snap0"
    and "length snap = length snap0"
  shows "envelope (tuner_up_buf (tuner_cycle (foldl tuner_cycle (tx_init snap0) snaps) snap))
           = [0x0D, 0x0A] @ snap @ [0x00, 0xFF, 0xFF]"
proof -
  let ?st = "foldl tuner_cycle (tx_init snap0) snaps"
  have len: "length (tuner_data (tuner_up_buf ?st)) = length snap0"
    using assms(1) cycles_length [of snaps "tx_init snap0"] by (simp add: tx_init_def)
  have hd: "header (tuner_up_buf ?st) = [0x0D, 0x0A]"
    by (simp add: cycles_frame tx_init_def RTT_TX_HEADER0_def RTT_TX_HEADER1_def)
  have tl: "tail (tuner_up_buf ?st) = [0x00, 0xFF, 0xFF]"
    by (simp add: cycles_frame tx_init_def RTT_TX_TAIL0_def RTT_TX_TAIL1_def RTT_TX_TAIL2_def)
  show ?thesis
    using len hd tl assms(2)
    by (simp add: envelope_def tuner_cycle_def rtt_tuner_send_eq)
qed

text \<open>
  Witness for C6, the concrete scenario: \<open>S = 2\<close>, one earlier cycle with another
  snapshot, then the snapshot 0x01, 0x02.
\<close>

theorem outbound_envelope_witness:
  "envelope (tuner_up_buf
     (tuner_cycle (foldl tuner_cycle (tx_init [0, 0]) [[0x07, 0x09]]) [0x01, 0x02]))
     = [0x0D, 0x0A, 0x01, 0x02, 0x00, 0xFF, 0xFF]"
  using outbound_envelope [of "[[0x07, 0x09]]" "[0, 0]" "[0x01, 0x02]"]
  by simp

text \<open>
  C7. From any state, one call of the send hook: takes the lock first and releases it
  last, and the lock is held at every point in between; leaves the read offset 0 and
  the write offset \<open>sizeof(tuner_up_buf)\<close>; leaves the header, the trailer and the
  telemetry object as they were. When the three arrays have their declared sizes, the
  payload afterwards is the telemetry object and the write offset is the length of the
  whole envelope.
\<close>

theorem send_hook_frame:
  "rtt_lock (rtt_tuner_send st) = False \<and>
   (\<forall>k. 0 < k \<and> k < length (rtt_tuner_send_ops st) \<longrightarrow>
        rtt_lock (foldl exec_tx_op st (take k (rtt_tuner_send_ops st)))) \<and>
   hd (rtt_tuner_send_ops st) = RTT_LOCK \<and> last (rtt_tuner_send_ops st) = RTT_UNLOCK \<and>
   RdOff (aUp_tuner (rtt_tuner_send st)) = 0 \<and>
   WrOff (aUp_tuner (rtt_tuner_send st)) = of_nat (sizeof_tuner_up_buf st) \<and>
   header (tuner_up_buf (rtt_tuner_send st)) = header (tuner_up_buf st) \<and>
   tail (tuner_up_buf (rtt_tuner_send st)) = tail (tuner_up_buf st) \<and>
   cy_capsense_tuner (rtt_tuner_send st) = cy_capsense_tuner st \<and>
   (length (header (tuner_up_buf st)) = 2 \<and>
    length (tuner_data (tuner_up_buf st)) = length (cy_capsense_tuner st) \<and>
    length (tail (tuner_up_buf st)) = 3 \<longrightarrow>
      tuner_data (tuner_up_buf (rtt_tuner_send st)) = cy_capsense_tuner st \<and>
      WrOff (aUp_tuner (rtt_tuner_send st))
        = of_nat (length (envelope (tuner_up_buf (rtt_tuner_send st)))))"
proof -
  have locked: "rtt_lock (foldl exec_tx_op st (take k (rtt_tuner_send_ops st)))"
    if "0 < k" "k < length (rtt_tuner_send_ops st)" for k
  proof -
    from that have "k = 1 \<or> k = 2 \<or> k = 3 \<or> k = 4"
      by (auto simp add: rtt_tuner_send_ops_def)
    then show ?thesis
      by (auto simp add: rtt_tuner_send_ops_def numeral_2_eq_2 numeral_3_eq_3 eval_nat_numeral)
  qed
  show ?thesis
    using locked
    by (simp add: rtt_tuner_send_eq envelope_def sizeof_tuner_up_buf_def)
       (simp add: rtt_tuner_send_ops_def)
qed

text \<open>
  Witness for C7: the startup state with a two-byte telemetry object; the lock is held
  after the third statement, and the payload and write offset are as stated.
\<close>

theorem send_hook_frame_witness:
  "rtt_lock (foldl exec_tx_op (tx_init [0x01, 0x02])
      (take 3 (rtt_tuner_send_ops (tx_init [0x01, 0x02])))) \<and>
   tuner_data (tuner_up_buf (rtt_tuner_send (tx_init [0x01, 0x02]))) = [0x01, 0x02] \<and>
   WrOff (aUp_tuner (rtt_tuner_send (tx_init [0x01, 0x02]))) = 7 \<and>
   length (envelope (tuner_up_buf (rtt_tuner_send (tx_init [0x01, 0x02])))) = 7"
proof -
  let ?st = "tx_init [0x01, 0x02]"
  have ops: "(0 :: nat) < 3 \<and> 3 < length (rtt_tuner_send_ops ?st)"
    by (simp add: rtt_tuner_send_ops_def)
  have lens: "length (header (tuner_up_buf ?st)) = 2 \<and>
      length (tuner_data (tuner_up_buf ?st)) = length (cy_capsense_tuner ?st) \<and>
      length (tail (tuner_up_buf ?st)) = 3"
    by (simp add: tx_init_def)
  have env: "length (envelope (tuner_up_buf (rtt_tuner_send ?st))) = 7"
    by (simp add: rtt_tuner_send_eq envelope_def tx_init_def)
  have snap: "cy_capsense_tuner ?st = [0x01, 0x02]"
    by (simp add: tx_init_def)
  from send_hook_frame [of ?st]
  have all: "\<forall>k. 0 < k \<and> k < length (rtt_tuner_send_ops ?st) \<longrightarrow>
        rtt_lock (foldl exec_tx_op ?st (take k (rtt_tuner_send_ops ?st)))"
    and imp: "length (header (tuner_up_buf ?st)) = 2 \<and>
      length (tuner_data (tuner_up_buf ?st)) = length (cy_capsense_tuner ?st) \<and>
      length (tail (tuner_up_buf ?st)) = 3 \<longrightarrow>
      tuner_data (tuner_up_buf (rtt_tuner_send ?st)) = cy_capsense_tuner ?st \<and>
      WrOff (aUp_tuner (rtt_tuner_send ?st))
        = of_nat (length (envelope (tuner_up_buf (rtt_tuner_send ?st))))"
    by blast+
  from all ops have l: "rtt_lock (foldl exec_tx_op ?st (take 3 (rtt_tuner_send_ops ?st)))"
    by blast
  from imp lens have "tuner_data (tuner_up_buf (rtt_tuner_send ?st)) = cy_capsense_tuner ?st"
    and "WrOff (aUp_tuner (rtt_tuner_send ?st))
        = of_nat (length (envelope (tuner_up_buf (rtt_tuner_send ?st))))"
    by blast+
  with l env snap show ?thesis
    by simp
qed

text \<open>
  C8. From any state, any positive number of send hook calls with the telemetry object
  unchanged leaves the same state, hence the same envelope bytes, as the first call;
  and across any number of cycles, whatever the snapshots, the header and trailer are
  those of the start.
\<close>

theorem send_hook_idempotent:
  "(rtt_tuner_send ^^ Suc n) st = rtt_tuner_send st \<and>
   envelope (tuner_up_buf ((rtt_tuner_send ^^ Suc n) st))
     = envelope (tuner_up_buf (rtt_tuner_send st)) \<and>
   header (tuner_up_buf (foldl tuner_cycle st snaps)) = header (tuner_up_buf st) \<and>
   tail (tuner_up_buf (foldl tuner_cycle st snaps)) = tail (tuner_up_buf st)"
proof -
  have twice: "rtt_tuner_send (rtt_tuner_send s) = rtt_tuner_send s" for s
    by (simp add: rtt_tuner_send_eq sizeof_tuner_up_buf_def)
  have "(rtt_tuner_send ^^ Suc n) st = rtt_tuner_send st"
    by (induction n) (simp_all add: twice)
  then show ?thesis
    by (simp add: cycles_frame)
qed

section \<open>Properties of the receive hook\<close>

text \<open>
  The recursive equation of \<open>shift_loop\<close> is unfolded by hand, one iteration at a time.
\<close>

declare shift_loop.simps [simp del]

text \<open>
  With the packet size 16 and a 16-byte array the shift loop stays in range; started at
  \<open>i\<close> it moves the bytes at \<open>i + 1, ..., 15\<close> one slot down and leaves slot 15 as it was.
\<close>

lemma shift_loop_16_from:
  "N = 16 \<Longrightarrow> length cp = 16 \<Longrightarrow> unat i \<le> 15 \<Longrightarrow>
   shift_loop N i cp = Inr (take (unat i) cp @ drop (unat i + 1) cp @ [cp ! 15])"
proof (induction N i cp rule: shift_loop.induct)
  case (1 N i cp)
  show ?case
  proof (cases "i < N - 1")
    case True
    with \<open>N = 16\<close> have lt: "unat i < 15"
      by (simp add: word_less_nat_alt)
    with True have suc: "unat (i + 1) = unat i + 1"
      by unat_arith
    let ?cp = "cp[unat i := cp ! unat (i + 1)]"
    from lt suc "1.prems" have inb: "unat i < length cp \<and> unat (i + 1) < length cp"
      by simp
    have "shift_loop N (i + 1) ?cp
        = Inr (take (unat (i + 1)) ?cp @ drop (unat (i + 1) + 1) ?cp @ [?cp ! 15])"
      using "1.IH" [OF True inb] "1.prems" lt suc by simp
    moreover have "take (unat (i + 1)) ?cp = take (unat i) cp @ [cp ! (unat i + 1)]"
      using lt suc "1.prems" by (simp add: take_Suc_conv_app_nth)
    moreover have "drop (unat (i + 1) + 1) ?cp = drop (unat i + 2) cp"
      using suc by simp
    moreover have "?cp ! 15 = cp ! 15"
      using lt by simp
    moreover have "drop (unat i + 1) cp = cp ! (unat i + 1) # drop (unat i + 2) cp"
      using lt "1.prems" by (simp add: Cons_nth_drop_Suc)
    ultimately show ?thesis
      using True inb by (subst shift_loop.simps) simp
  next
    case False
    with \<open>N = 16\<close> "1.prems" have eq: "unat i = 15"
      by (simp add: word_less_nat_alt)
    have "take 15 cp @ [cp ! 15] = take 16 cp"
      using "1.prems" by (simp add: take_Suc_conv_app_nth [symmetric])
    then have "cp = take 15 cp @ drop 16 cp @ [cp ! 15]"
      using "1.prems" by simp
    with False eq show ?thesis
      by (subst shift_loop.simps) simp
  qed
qed

lemma shift_loop_16:
  "length cp = 16 \<Longrightarrow> shift_loop 16 0 cp = Inr (drop 1 cp @ [cp ! 15])"
  using shift_loop_16_from [of 16 cp 0] by simp

text \<open>
  One iteration of the body in a state whose cursor is below 16 and whose array has its
  16 bytes: no fault, and the three paths in closed form.
\<close>

lemma unat_data_index_Suc:
  "unat (d :: u32) < 16 \<Longrightarrow> unat (d + 1) = unat d + 1"
  by (simp add: unat_word_ariths)

lemma rx_body_16:
  assumes "unat (data_index s) < 16" and "length (command_packet s) = 16"
  shows "rx_body 16 chk s out b =
     (let cp = (command_packet s)[unat (data_index s) := b] in
      if unat (data_index s) = 15 then
        (if chk cp then
           Inr (Accepted, \<lparr>data_index = 0, command_packet = cp\<rparr>,
                out\<lparr>tuner_packet := Addr_cy_capsense_tuner, packet := Addr_command_packet\<rparr>)
         else Inr (Resynced, \<lparr>data_index = 15, command_packet = drop 1 cp @ [cp ! 15]\<rparr>, out))
      else Inr (Stored, \<lparr>data_index = data_index s + 1, command_packet = cp\<rparr>, out))"
proof -
  have full: "(16 = data_index s + 1) = (unat (data_index s) = 15)"
    using unat_data_index_Suc [OF assms(1)]
    by (auto simp add: word_unat_eq_iff)
  have dec: "data_index s = 15" if "unat (data_index s) = 15"
    using that by (simp add: word_unat_eq_iff)
  show ?thesis
    using assms full dec
    by (auto simp add: rx_body_def Let_def shift_loop_16)
qed

text \<open>
  The window: the bytes below the cursor followed by the bytes still to be read. A store
  extends the part in the array; a shift drops the oldest byte of the window.
\<close>

lemma window_step:
  assumes "length cp = 16"
  shows "take 15 (drop 1 (cp[15 := b]) @ [cp[15 := b] ! 15]) @ bs
           = drop 1 (take 15 cp @ b # bs)"
    and "cp[15 := b] = take 16 (take 15 cp @ b # bs)"
proof -
  have cp1: "cp[15 := b] = take 15 cp @ [b]"
    using assms by (simp add: upd_conv_take_nth_drop)
  have ne: "take 15 cp \<noteq> []"
    using assms by auto
  show "take 15 (drop 1 (cp[15 := b]) @ [cp[15 := b] ! 15]) @ bs
           = drop 1 (take 15 cp @ b # bs)"
    using assms ne by (simp add: cp1)
  show "cp[15 := b] = take 16 (take 15 cp @ b # bs)"
    using assms by (simp add: cp1)
qed

lemma window_store:
  assumes "length cp = 16" and "d < 15"
  shows "take (d + 1) (cp[d := b]) = take d cp @ [b]"
  using assms by (simp add: take_Suc_conv_app_nth)

text \<open>
  An invocation whose window has its first passing alignment at \<open>m\<close>: the hook stores
  until the array is full, shifts \<open>m\<close> times, accepts, and leaves the rest unread.
\<close>

lemma receive_accept:
  assumes "unat (data_index s) < 16" and "length (command_packet s) = 16"
    and "full = take (unat (data_index s)) (command_packet s) @ bs"
    and "m + 16 \<le> length full"
    and "\<forall>j<m. \<not> chk (take 16 (drop j full))"
    and "chk (take 16 (drop m full))"
  shows "rtt_tuner_receive 16 chk s out bs =
           Inr (\<lparr>data_index = 0, command_packet = take 16 (drop m full)\<rparr>,
                out\<lparr>tuner_packet := Addr_cy_capsense_tuner, packet := Addr_command_packet\<rparr>,
                drop (m + 16) full) \<and>
         rtt_tuner_receive_paths 16 chk s out bs =
           replicate (15 - unat (data_index s)) Stored @ replicate m Resynced @ [Accepted]"
  using assms
proof (induction bs arbitrary: s m full)
  case Nil
  then show ?case by simp
next
  case (Cons b bs)
  let ?d = "unat (data_index s)"
  let ?cp = "(command_packet s)[?d := b]"
  note body = rx_body_16 [OF Cons.prems(1,2), of chk out b]
  show ?case
  proof (cases "?d = 15")
    case False
    with Cons.prems(1) have lt: "?d < 15" by simp
    let ?s1 = "\<lparr>data_index = data_index s + 1, command_packet = ?cp\<rparr>"
    have d1: "unat (data_index ?s1) = ?d + 1"
      using unat_data_index_Suc [OF Cons.prems(1)] by simp
    have full1: "full = take (unat (data_index ?s1)) (command_packet ?s1) @ bs"
      using Cons.prems(2,3) lt d1 window_store [of "command_packet s" ?d b] by simp
    have "rtt_tuner_receive 16 chk ?s1 out bs =
           Inr (\<lparr>data_index = 0, command_packet = take 16 (drop m full)\<rparr>,
                out\<lparr>tuner_packet := Addr_cy_capsense_tuner, packet := Addr_command_packet\<rparr>,
                drop (m + 16) full) \<and>
         rtt_tuner_receive_paths 16 chk ?s1 out bs =
           replicate (15 - unat (data_index ?s1)) Stored @ replicate m Resynced @ [Accepted]"
      using Cons.prems(2,4,5,6) lt d1
      by (intro Cons.IH [OF _ _ full1]) simp_all
    moreover have "replicate (15 - ?d) Stored = Stored # replicate (15 - (?d + 1)) Stored"
      using lt by (metis Suc_diff_Suc Suc_eq_plus1 replicate_Suc)
    ultimately show ?thesis
      using body False d1 by (simp add: Let_def)
  next
    case True
    have win: "?cp = take 16 full"
      using window_step(2) [OF Cons.prems(2), of b bs] True Cons.prems(3) by simp
    show ?thesis
    proof (cases m)
      case 0
      have "drop 16 full = bs"
        using Cons.prems(2,3) True by simp
      with 0 Cons.prems(6) body True win show ?thesis
        by (simp add: Let_def)
    next
      case (Suc m')
      with Cons.prems(5) have fail: "\<not> chk ?cp"
        using win by auto
      let ?s1 = "\<lparr>data_index = 15, command_packet = drop 1 ?cp @ [?cp ! 15]\<rparr>"
      have full1: "drop 1 full = take (unat (data_index ?s1)) (command_packet ?s1) @ bs"
        using window_step(1) [OF Cons.prems(2), of b bs] True Cons.prems(3) by simp
      have "rtt_tuner_receive 16 chk ?s1 out bs =
           Inr (\<lparr>data_index = 0, command_packet = take 16 (drop m' (drop 1 full))\<rparr>,
                out\<lparr>tuner_packet := Addr_cy_capsense_tuner, packet := Addr_command_packet\<rparr>,
                drop (m' + 16) (drop 1 full)) \<and>
         rtt_tuner_receive_paths 16 chk ?s1 out bs =
           replicate (15 - unat (data_index ?s1)) Stored @ replicate m' Resynced @ [Accepted]"
      proof (intro Cons.IH [OF _ _ full1])
        show "unat (data_index ?s1) < 16" by simp
        show "length (command_packet ?s1) = 16" using Cons.prems(2) by simp
        show "m' + 16 \<le> length (drop 1 full)" using Cons.prems(4) Suc by simp
        show "\<forall>j<m'. \<not> chk (take 16 (drop j (drop 1 full)))"
          using Cons.prems(5) Suc by simp
        show "chk (take 16 (drop m' (drop 1 full)))"
          using Cons.prems(6) Suc by simp
      qed
      with body True fail Suc show ?thesis
        by (simp add: Let_def)
    qed
  qed
qed


text \<open>
  An invocation whose window passes at no alignment: every byte is read, the cells are
  as they were, and the array keeps the last bytes of the window (at most 15).
\<close>

lemma receive_drain:
  assumes "unat (data_index s) < 16" and "length (command_packet s) = 16"
    and "full = take (unat (data_index s)) (command_packet s) @ bs"
    and "\<forall>j. j + 16 \<le> length full \<longrightarrow> \<not> chk (take 16 (drop j full))"
  shows "\<exists>s'. rtt_tuner_receive 16 chk s out bs = Inr (s', out, []) \<and>
           unat (data_index s') = min 15 (length full) \<and>
           length (command_packet s') = 16 \<and>
           take (unat (data_index s')) (command_packet s')
             = drop (length full - min 15 (length full)) full \<and>
           Accepted \<notin> set (rtt_tuner_receive_paths 16 chk s out bs) \<and>
           length (rtt_tuner_receive_paths 16 chk s out bs) = length bs"
  using assms
proof (induction bs arbitrary: s full)
  case Nil
  then show ?case by (simp add: min_def)
next
  case (Cons b bs)
  let ?d = "unat (data_index s)"
  let ?cp = "(command_packet s)[?d := b]"
  note body = rx_body_16 [OF Cons.prems(1,2), of chk out b]
  show ?case
  proof (cases "?d = 15")
    case False
    with Cons.prems(1) have lt: "?d < 15" by simp
    let ?s1 = "\<lparr>data_index = data_index s + 1, command_packet = ?cp\<rparr>"
    have d1: "unat (data_index ?s1) = ?d + 1"
      using unat_data_index_Suc [OF Cons.prems(1)] by simp
    have full1: "full = take (unat (data_index ?s1)) (command_packet ?s1) @ bs"
      using Cons.prems(2,3) lt d1 window_store [of "command_packet s" ?d b] by simp
    have "\<exists>s'. rtt_tuner_receive 16 chk ?s1 out bs = Inr (s', out, []) \<and>
           unat (data_index s') = min 15 (length full) \<and>
           length (command_packet s') = 16 \<and>
           take (unat (data_index s')) (command_packet s')
             = drop (length full - min 15 (length full)) full \<and>
           Accepted \<notin> set (rtt_tuner_receive_paths 16 chk ?s1 out bs) \<and>
           length (rtt_tuner_receive_paths 16 chk ?s1 out bs) = length bs"
      using Cons.prems(2,4) lt d1
      by (intro Cons.IH [OF _ _ full1]) simp_all
    then show ?thesis
      using body False by (simp add: Let_def)
  next
    case True
    have win: "?cp = take 16 full"
      using window_step(2) [OF Cons.prems(2), of b bs] True Cons.prems(3) by simp
    have len: "length full = 16 + length bs"
      using Cons.prems(2,3) True by simp
    with Cons.prems(4) have fail: "\<not> chk ?cp"
      using win by (metis add_0 drop0 le_add1)
    let ?s1 = "\<lparr>data_index = 15, command_packet = drop 1 ?cp @ [?cp ! 15]\<rparr>"
    have full1: "drop 1 full = take (unat (data_index ?s1)) (command_packet ?s1) @ bs"
      using window_step(1) [OF Cons.prems(2), of b bs] True Cons.prems(3) by simp
    have "\<exists>s'. rtt_tuner_receive 16 chk ?s1 out bs = Inr (s', out, []) \<and>
           unat (data_index s') = min 15 (length (drop 1 full)) \<and>
           length (command_packet s') = 16 \<and>
           take (unat (data_index s')) (command_packet s')
             = drop (length (drop 1 full) - min 15 (length (drop 1 full))) (drop 1 full) \<and>
           Accepted \<notin> set (rtt_tuner_receive_paths 16 chk ?s1 out bs) \<and>
           length (rtt_tuner_receive_paths 16 chk ?s1 out bs) = length bs"
    proof (intro Cons.IH [OF _ _ full1])
      show "unat (data_index ?s1) < 16" by simp
      show "length (command_packet ?s1) = 16" using Cons.prems(2) by simp
      show "\<forall>j. j + 16 \<le> length (drop 1 full) \<longrightarrow> \<not> chk (take 16 (drop j (drop 1 full)))"
      proof (intro allI impI)
        fix j assume "j + 16 \<le> length (drop 1 full)"
        then have "Suc j + 16 \<le> length full" using len by simp
        with Cons.prems(4) have "\<not> chk (take 16 (drop (Suc j) full))" by blast
        then show "\<not> chk (take 16 (drop j (drop 1 full)))" by simp
      qed
    qed
    with body True fail len show ?thesis
      by (simp add: Let_def)
  qed
qed

text \<open>No invocation from such a state faults, and the state it leaves is such a state.\<close>

lemma receive_total:
  assumes "unat (data_index s) < 16" and "length (command_packet s) = 16"
  shows "\<exists>s' out' unread. rtt_tuner_receive 16 chk s out bs = Inr (s', out', unread) \<and>
           unat (data_index s') < 16 \<and> length (command_packet s') = 16 \<and>
           (length bs \<le> 1 \<longrightarrow> unread = [])"
  using assms
proof (induction bs arbitrary: s)
  case Nil
  then show ?case by simp
next
  case (Cons b bs)
  note body = rx_body_16 [OF Cons.prems, of chk out b]
  let ?cp = "(command_packet s)[unat (data_index s) := b]"
  consider (stored) "unat (data_index s) \<noteq> 15"
    | (accepted) "unat (data_index s) = 15" "chk ?cp"
    | (resynced) "unat (data_index s) = 15" "\<not> chk ?cp"
    by blast
  then show ?case
  proof cases
    case stored
    let ?s1 = "\<lparr>data_index = data_index s + 1, command_packet = ?cp\<rparr>"
    have "unat (data_index ?s1) < 16"
      using stored Cons.prems(1) unat_data_index_Suc [OF Cons.prems(1)] by simp
    moreover have "length (command_packet ?s1) = 16"
      using Cons.prems(2) by simp
    ultimately show ?thesis
      using Cons.IH [of ?s1] body stored by (auto simp add: Let_def)
  next
    case accepted
    with body Cons.prems(2) show ?thesis
      by (simp add: Let_def)
  next
    case resynced
    let ?s1 = "\<lparr>data_index = 15, command_packet = drop 1 ?cp @ [?cp ! 15]\<rparr>"
    have "unat (data_index ?s1) < 16" by simp
    moreover have "length (command_packet ?s1) = 16"
      using Cons.prems(2) by simp
    ultimately show ?thesis
      using Cons.IH [of ?s1] body resynced by (auto simp add: Let_def)
  qed
qed

lemma rx_session_total:
  assumes "unat (data_index s) < 16" and "length (command_packet s) = 16"
  shows "\<exists>s' pending'. rx_session 16 chk s pending chunks = Inr (s', pending') \<and>
           unat (data_index s') < 16 \<and> length (command_packet s') = 16 \<and>
           ((\<forall>c \<in> set chunks. length c \<le> 1) \<and> pending = [] \<longrightarrow> pending' = [])"
  using assms
proof (induction chunks arbitrary: s pending)
  case Nil
  then show ?case by simp
next
  case (Cons c chunks)
  obtain s1 out1 unread where
    r: "rtt_tuner_receive 16 chk s \<lparr>packet = NULL, tuner_packet = NULL\<rparr> (pending @ c)
          = Inr (s1, out1, unread)"
    and inv: "unat (data_index s1) < 16" "length (command_packet s1) = 16"
    and one: "length (pending @ c) \<le> 1 \<longrightarrow> unread = []"
    using receive_total [OF Cons.prems] by blast
  from Cons.IH [OF inv, of unread] r one show ?case
    by auto
qed

text \<open>
  A stream split over two invocations: the first reads its part and leaves the cells as
  they were, the second accepts the packet.
\<close>

lemma resync_two_invocations:
  assumes "length pkt = 16" and "chk pkt"
    and "\<forall>j<length noise. \<not> chk (take 16 (drop j (noise @ pkt)))"
    and "noise @ pkt = xs @ ys" and "ys \<noteq> []"
  shows "\<exists>s1. rtt_tuner_receive 16 chk rx_static_init out xs = Inr (s1, out, []) \<and>
           rtt_tuner_receive 16 chk s1 out ys =
             Inr (\<lparr>data_index = 0, command_packet = pkt\<rparr>,
                  out\<lparr>tuner_packet := Addr_cy_capsense_tuner, packet := Addr_command_packet\<rparr>,
                  [])"
proof -
  let ?m = "length noise"
  let ?k = "length xs - min 15 (length xs)"
  have "length (noise @ pkt) = length (xs @ ys)"
    using assms(4) by simp
  then have len: "length xs + length ys = ?m + 16"
    using assms(1) by simp
  have pos: "1 \<le> length ys"
    using assms(5) by (cases ys) simp_all
  have init: "unat (data_index rx_static_init) < 16" "length (command_packet rx_static_init) = 16"
    "xs = take (unat (data_index rx_static_init)) (command_packet rx_static_init) @ xs"
    by (simp_all add: rx_static_init_def)
  have nowin: "\<forall>j. j + 16 \<le> length xs \<longrightarrow> \<not> chk (take 16 (drop j xs))"
  proof (intro allI impI)
    fix j assume j: "j + 16 \<le> length xs"
    with len pos have "j < ?m" by linarith
    with assms(3) have "\<not> chk (take 16 (drop j (xs @ ys)))"
      using assms(4) by simp
    with j show "\<not> chk (take 16 (drop j xs))" by simp
  qed
  obtain s1 where r1: "rtt_tuner_receive 16 chk rx_static_init out xs = Inr (s1, out, [])"
    and d1: "unat (data_index s1) = min 15 (length xs)"
    and l1: "length (command_packet s1) = 16"
    and w1: "take (unat (data_index s1)) (command_packet s1) = drop ?k xs"
    using receive_drain [OF init nowin, of out] by blast
  have lt1: "unat (data_index s1) < 16" using d1 by simp
  let ?full = "drop ?k (xs @ ys)"
  have full: "?full = take (unat (data_index s1)) (command_packet s1) @ ys"
    using w1 by simp
  have k: "?k \<le> ?m" using len pos by arith
  have drop_full: "drop j ?full = drop (j + ?k) (noise @ pkt)" for j
    using assms(4) by (simp add: add.commute)
  have "length ?full = length xs + length ys - ?k"
    by simp
  then have lf: "length ?full = ?m + 16 - ?k"
    using len by simp
  have a: "(?m - ?k) + 16 \<le> length ?full"
    unfolding lf using k by arith
  have b: "\<forall>j<?m - ?k. \<not> chk (take 16 (drop j ?full))"
  proof (intro allI impI)
    fix j assume "j < ?m - ?k"
    then have "j + ?k < ?m" by simp
    with assms(3) show "\<not> chk (take 16 (drop j ?full))"
      unfolding drop_full by blast
  qed
  have mk: "(?m - ?k) + ?k = ?m" using k by simp
  have c: "take 16 (drop (?m - ?k) ?full) = pkt"
    unfolding drop_full mk using assms(1) by simp
  have "length ?full \<le> (?m - ?k) + 16"
    unfolding lf using k by arith
  then have e: "drop ((?m - ?k) + 16) ?full = []"
    by (rule drop_all)
  from receive_accept [OF lt1 l1 full a b, of out] c e assms(2) r1
  show ?thesis by simp
qed

text \<open>
  C2. Packet size 16, startup state. The stream is at most 15 noise bytes followed by a
  16-byte packet that passes the integrity check, and no 16-byte window of the stream
  at an earlier alignment passes it. Read in one invocation, the hook accepts once, at
  the last byte, with the array equal to the packet, the cursor 0, both cells written
  and nothing left unread; before that it stored 15 bytes and shifted once per noise
  byte. Read in two invocations, split anywhere before the last byte, the first leaves
  the cells untouched and the second accepts the same packet.
\<close>

theorem resync_emits_packet:
  assumes "length noise \<le> 15" and "length pkt = 16" and "chk pkt"
    and "\<forall>j<length noise. \<not> chk (take 16 (drop j (noise @ pkt)))"
  shows "rtt_tuner_receive 16 chk rx_static_init out (noise @ pkt) =
           Inr (\<lparr>data_index = 0, command_packet = pkt\<rparr>,
                out\<lparr>tuner_packet := Addr_cy_capsense_tuner, packet := Addr_command_packet\<rparr>,
                []) \<and>
         rtt_tuner_receive_paths 16 chk rx_static_init out (noise @ pkt) =
           replicate 15 Stored @ replicate (length noise) Resynced @ [Accepted] \<and>
         length (filter (\<lambda>p. p = Accepted)
           (rtt_tuner_receive_paths 16 chk rx_static_init out (noise @ pkt))) = 1 \<and>
         length (filter (\<lambda>p. p = Resynced)
           (rtt_tuner_receive_paths 16 chk rx_static_init out (noise @ pkt))) = length noise \<and>
         (\<forall>xs ys. noise @ pkt = xs @ ys \<and> ys \<noteq> [] \<longrightarrow>
            (\<exists>s1. rtt_tuner_receive 16 chk rx_static_init out xs = Inr (s1, out, []) \<and>
               rtt_tuner_receive 16 chk s1 out ys =
                 Inr (\<lparr>data_index = 0, command_packet = pkt\<rparr>,
                      out\<lparr>tuner_packet := Addr_cy_capsense_tuner,
                          packet := Addr_command_packet\<rparr>,
                      [])))"
proof -
  let ?full = "noise @ pkt"
  have init: "unat (data_index rx_static_init) < 16" "length (command_packet rx_static_init) = 16"
    "?full = take (unat (data_index rx_static_init)) (command_packet rx_static_init) @ ?full"
    by (simp_all add: rx_static_init_def)
  have "chk (take 16 (drop (length noise) ?full))"
    using assms(2,3) by simp
  moreover have "length noise + 16 \<le> length ?full"
    using assms(2) by simp
  ultimately have
    "rtt_tuner_receive 16 chk rx_static_init out ?full =
           Inr (\<lparr>data_index = 0, command_packet = take 16 (drop (length noise) ?full)\<rparr>,
                out\<lparr>tuner_packet := Addr_cy_capsense_tuner, packet := Addr_command_packet\<rparr>,
                drop (length noise + 16) ?full) \<and>
     rtt_tuner_receive_paths 16 chk rx_static_init out ?full =
           replicate (15 - unat (data_index rx_static_init)) Stored
             @ replicate (length noise) Resynced @ [Accepted]"
    using assms(4) by (intro receive_accept [OF init]) simp_all
  then have one: "rtt_tuner_receive 16 chk rx_static_init out ?full =
           Inr (\<lparr>data_index = 0, command_packet = pkt\<rparr>,
                out\<lparr>tuner_packet := Addr_cy_capsense_tuner, packet := Addr_command_packet\<rparr>,
                [])"
    and paths: "rtt_tuner_receive_paths 16 chk rx_static_init out ?full =
           replicate 15 Stored @ replicate (length noise) Resynced @ [Accepted]"
    using assms(2) by (simp_all add: rx_static_init_def)
  have two: "\<exists>s1. rtt_tuner_receive 16 chk rx_static_init out xs = Inr (s1, out, []) \<and>
               rtt_tuner_receive 16 chk s1 out ys =
                 Inr (\<lparr>data_index = 0, command_packet = pkt\<rparr>,
                      out\<lparr>tuner_packet := Addr_cy_capsense_tuner,
                          packet := Addr_command_packet\<rparr>,
                      [])"
    if "noise @ pkt = xs @ ys \<and> ys \<noteq> []" for xs ys
    using resync_two_invocations [OF assms(2,3,4), of xs ys out] that by blast
  from one two show ?thesis
    unfolding paths by simp
qed

text \<open>
  Witness for C2, the concrete scenario: the noise byte 0xAA, then a 16-byte packet,
  with a predicate that tests the first two bytes. One acceptance, one shift.
\<close>

theorem resync_emits_packet_witness:
  "rtt_tuner_receive 16 (\<lambda>p. take 2 p = [0x0D, 0x0A]) rx_static_init
      \<lparr>packet = NULL, tuner_packet = NULL\<rparr>
      ([0xAA] @ [0x0D, 0x0A, 1, 2, 3, 4, 5, 6, 7, 8, 9, 10, 11, 0x00, 0xFF, 0xFF]) =
     Inr (\<lparr>data_index = 0,
           command_packet = [0x0D, 0x0A, 1, 2, 3, 4, 5, 6, 7, 8, 9, 10, 11, 0x00, 0xFF, 0xFF]\<rparr>,
          \<lparr>packet = Addr_command_packet, tuner_packet = Addr_cy_capsense_tuner\<rparr>, []) \<and>
   length (filter (\<lambda>p. p = Accepted)
     (rtt_tuner_receive_paths 16 (\<lambda>p. take 2 p = [0x0D, 0x0A]) rx_static_init
        \<lparr>packet = NULL, tuner_packet = NULL\<rparr>
        ([0xAA] @ [0x0D, 0x0A, 1, 2, 3, 4, 5, 6, 7, 8, 9, 10, 11, 0x00, 0xFF, 0xFF]))) = 1 \<and>
   length (filter (\<lambda>p. p = Resynced)
     (rtt_tuner_receive_paths 16 (\<lambda>p. take 2 p = [0x0D, 0x0A]) rx_static_init
        \<lparr>packet = NULL, tuner_packet = NULL\<rparr>
        ([0xAA] @ [0x0D, 0x0A, 1, 2, 3, 4, 5, 6, 7, 8, 9, 10, 11, 0x00, 0xFF, 0xFF]))) = 1 \<and>
   (\<exists>s1. rtt_tuner_receive 16 (\<lambda>p. take 2 p = [0x0D, 0x0A]) rx_static_init
             \<lparr>packet = NULL, tuner_packet = NULL\<rparr> [0xAA]
           = Inr (s1, \<lparr>packet = NULL, tuner_packet = NULL\<rparr>, []) \<and>
         rtt_tuner_receive 16 (\<lambda>p. take 2 p = [0x0D, 0x0A]) s1
             \<lparr>packet = NULL, tuner_packet = NULL\<rparr>
             [0x0D, 0x0A, 1, 2, 3, 4, 5, 6, 7, 8, 9, 10, 11, 0x00, 0xFF, 0xFF]
           = Inr (\<lparr>data_index = 0,
                 command_packet =
                   [0x0D, 0x0A, 1, 2, 3, 4, 5, 6, 7, 8, 9, 10, 11, 0x00, 0xFF, 0xFF]\<rparr>,
                \<lparr>packet = Addr_command_packet, tuner_packet = Addr_cy_capsense_tuner\<rparr>, []))"
proof -
  let ?pkt = "[0x0D, 0x0A, 1, 2, 3, 4, 5, 6, 7, 8, 9, 10, 11, 0x00, 0xFF, 0xFF] :: u8 list"
  let ?chk = "\<lambda>p :: u8 list. take 2 p = [0x0D, 0x0A]"
  let ?out = "\<lparr>packet = NULL, tuner_packet = NULL\<rparr>"
  have h1: "length [0xAA :: u8] \<le> 15" and h2: "length ?pkt = 16" and h3: "?chk ?pkt"
    and h4: "\<forall>j<length [0xAA :: u8]. \<not> ?chk (take 16 (drop j ([0xAA] @ ?pkt)))"
    by simp_all
  note inst = resync_emits_packet [OF h1 h2 h3 h4, of ?out]
  from inst have split: "[0xAA] @ ?pkt = [0xAA] @ ?pkt \<and> ?pkt \<noteq> [] \<longrightarrow>
      (\<exists>s1. rtt_tuner_receive 16 ?chk rx_static_init ?out [0xAA] = Inr (s1, ?out, []) \<and>
         rtt_tuner_receive 16 ?chk s1 ?out ?pkt =
           Inr (\<lparr>data_index = 0, command_packet = ?pkt\<rparr>,
                ?out\<lparr>tuner_packet := Addr_cy_capsense_tuner, packet := Addr_command_packet\<rparr>,
                []))"
    by blast
  from inst split show ?thesis
    by simp
qed

text \<open>
  C3. Packet size 16. When the byte just read brings the cursor to 16 and the full array
  fails the integrity check, the iteration takes the shift path: the cursor ends one
  below 16, slots 0 to 14 hold bytes 1 to 15 of the failed window, and the cells are
  not written.
\<close>

theorem resync_shift:
  assumes "length (command_packet s) = 16"
    and "data_index s + 1 = 16"
    and "\<not> chk ((command_packet s)[unat (data_index s) := b])"
  shows "\<exists>s'. rx_body 16 chk s out b = Inr (Resynced, s', out) \<and>
           data_index s' = (data_index s + 1) - 1 \<and>
           unat (data_index s') = 16 - 1 \<and>
           length (command_packet s') = 16 \<and>
           take 15 (command_packet s') = drop 1 ((command_packet s)[unat (data_index s) := b]) \<and>
           (\<forall>i<15. command_packet s' ! i = (command_packet s)[unat (data_index s) := b] ! (i + 1))"
proof -
  from assms(2) have "data_index s = 16 - 1"
    by (metis add_diff_cancel_right')
  then have d: "data_index s = 15" by simp
  then have u: "unat (data_index s) = 15" by simp
  then have lt: "unat (data_index s) < 16" by simp
  show ?thesis
    using rx_body_16 [OF lt assms(1), of chk out b] assms(1,3) u d
    by (simp add: Let_def nth_append)
qed

text \<open>
  Witness for C3: a full window 0xAA, 1, ..., 15 that fails the check.
\<close>

theorem resync_shift_witness:
  "\<exists>s'. rx_body 16 (\<lambda>p. False)
            \<lparr>data_index = 15,
             command_packet = [0xAA, 1, 2, 3, 4, 5, 6, 7, 8, 9, 10, 11, 12, 13, 14, 0]\<rparr>
            \<lparr>packet = NULL, tuner_packet = NULL\<rparr> 15
          = Inr (Resynced, s', \<lparr>packet = NULL, tuner_packet = NULL\<rparr>) \<and>
        data_index s' = 15 \<and>
        take 15 (command_packet s') = [1, 2, 3, 4, 5, 6, 7, 8, 9, 10, 11, 12, 13, 14, 15]"
  using resync_shift [of "\<lparr>data_index = 15,
             command_packet = [0xAA, 1, 2, 3, 4, 5, 6, 7, 8, 9, 10, 11, 12, 13, 14, 0]\<rparr>"
      "\<lambda>p. False" 15 "\<lparr>packet = NULL, tuner_packet = NULL\<rparr>"]
  by auto

text \<open>
  C4. Packet size 16, startup state. After any sequence of bytes, each fed in its own
  invocation, no fault has occurred, nothing is left unread and the cursor is at most
  16. On the next byte the cursor goes up by one (stored), or it had reached 16 and
  becomes 0 (check passed) or 15 (check failed); it is 0 after a byte exactly when that
  byte completed a window that passed.
\<close>

theorem cursor_invariant:
  "\<exists>s'. feed_bytes 16 chk rx_static_init bytes = Inr (s', []) \<and>
      unat (data_index s') \<le> 16 \<and>
      (\<exists>p s'' out'. rx_body 16 chk s' out b = Inr (p, s'', out') \<and>
         unat (data_index s'') \<le> 16 \<and>
         (case p of
            Stored \<Rightarrow> data_index s'' = data_index s' + 1
          | Accepted \<Rightarrow> data_index s' + 1 = 16 \<and> data_index s'' = 0
          | Resynced \<Rightarrow> data_index s' + 1 = 16 \<and> data_index s'' = 16 - 1) \<and>
         (data_index s'' = 0) = (p = Accepted))"
proof -
  have init: "unat (data_index rx_static_init) < 16"
    "length (command_packet rx_static_init) = 16"
    by (simp_all add: rx_static_init_def)
  obtain s' pending' where
    r: "rx_session 16 chk rx_static_init [] (map (\<lambda>b. [b]) bytes) = Inr (s', pending')"
    and lt: "unat (data_index s') < 16" and len: "length (command_packet s') = 16"
    and p: "(\<forall>c \<in> set (map (\<lambda>b. [b]) bytes). length c \<le> 1) \<and> ([] :: u8 list) = []
              \<longrightarrow> pending' = []"
    using rx_session_total [OF init, of chk "[]" "map (\<lambda>b. [b]) bytes"] by blast
  from p have "pending' = []" by simp
  with r have feed: "feed_bytes 16 chk rx_static_init bytes = Inr (s', [])"
    by (simp add: feed_bytes_def)
  have suc: "unat (data_index s' + 1) = unat (data_index s') + 1"
    by (rule unat_data_index_Suc [OF lt])
  have nz: "data_index s' + 1 \<noteq> 0"
    using suc by (metis Suc_eq_plus1 nat.simps(3) unat_0)
  have full: "unat (data_index s') = 15 \<Longrightarrow> data_index s' + 1 = 16"
    using suc by (simp add: word_unat_eq_iff)
  show ?thesis
    using feed lt rx_body_16 [OF lt len, of chk out b] suc nz full
    by (auto simp add: Let_def)
qed

text \<open>
  C5. Packet size 16, any state with the cursor below 16 and a 16-byte array. The window
  is the bytes kept from earlier invocations followed by the bytes available now. If
  some 16-byte stretch of it passes the integrity check, the hook accepts the first
  such stretch: both cells are written, the cursor is 0, the array holds that stretch,
  and the bytes after it stay unread. If none does, both cells are returned as they
  were passed in and every available byte has been read.
\<close>

theorem receive_outputs:
  assumes "unat (data_index s) < 16" and "length (command_packet s) = 16"
    and "full = take (unat (data_index s)) (command_packet s) @ bs"
  shows "if \<exists>m. m + 16 \<le> length full \<and> chk (take 16 (drop m full))
         then \<exists>m. m + 16 \<le> length full \<and> chk (take 16 (drop m full)) \<and>
                (\<forall>j<m. \<not> chk (take 16 (drop j full))) \<and>
                rtt_tuner_receive 16 chk s out bs =
                  Inr (\<lparr>data_index = 0, command_packet = take 16 (drop m full)\<rparr>,
                       out\<lparr>tuner_packet := Addr_cy_capsense_tuner,
                           packet := Addr_command_packet\<rparr>,
                       drop (m + 16) full)
         else \<exists>s'. rtt_tuner_receive 16 chk s out bs = Inr (s', out, [])"
proof (cases "\<exists>m. m + 16 \<le> length full \<and> chk (take 16 (drop m full))")
  case True
  then obtain m where m: "m + 16 \<le> length full \<and> chk (take 16 (drop m full))"
    and least: "\<forall>j<m. \<not> (j + 16 \<le> length full \<and> chk (take 16 (drop j full)))"
    using exists_least_iff [of "\<lambda>m. m + 16 \<le> length full \<and> chk (take 16 (drop m full))"]
    by blast
  from m least have fails: "\<forall>j<m. \<not> chk (take 16 (drop j full))"
    by auto
  from receive_accept [OF assms(1,2,3) _ fails, of out] m
  have "rtt_tuner_receive 16 chk s out bs =
          Inr (\<lparr>data_index = 0, command_packet = take 16 (drop m full)\<rparr>,
               out\<lparr>tuner_packet := Addr_cy_capsense_tuner, packet := Addr_command_packet\<rparr>,
               drop (m + 16) full)"
    by blast
  with m fails True show ?thesis
    by auto
next
  case False
  then have "\<forall>j. j + 16 \<le> length full \<longrightarrow> \<not> chk (take 16 (drop j full))"
    by blast
  from receive_drain [OF assms(1,2,3) this, of out] False show ?thesis
    by auto
qed

text \<open>
  Witness for C5: one byte kept from before and 17 bytes available, accepted with one
  byte left unread; and two bytes from the startup state, nothing accepted.
\<close>

theorem receive_outputs_witness:
  "(\<exists>m. m + 16 \<le> length ([0xAA] @
            [0x0D, 0x0A, 1, 2, 3, 4, 5, 6, 7, 8, 9, 10, 11, 0x00, 0xFF, 0xFF, 0x55 :: u8]) \<and>
        rtt_tuner_receive 16 (\<lambda>p. take 2 p = [0x0D, 0x0A])
          \<lparr>data_index = 1, command_packet = 0xAA # replicate 15 0\<rparr>
          \<lparr>packet = NULL, tuner_packet = NULL\<rparr>
          [0x0D, 0x0A, 1, 2, 3, 4, 5, 6, 7, 8, 9, 10, 11, 0x00, 0xFF, 0xFF, 0x55]
        = Inr (\<lparr>data_index = 0,
                command_packet = take 16 (drop m ([0xAA] @
                  [0x0D, 0x0A, 1, 2, 3, 4, 5, 6, 7, 8, 9, 10, 11, 0x00, 0xFF, 0xFF, 0x55]))\<rparr>,
               \<lparr>packet = Addr_command_packet, tuner_packet = Addr_cy_capsense_tuner\<rparr>,
               drop (m + 16) ([0xAA] @
                  [0x0D, 0x0A, 1, 2, 3, 4, 5, 6, 7, 8, 9, 10, 11, 0x00, 0xFF, 0xFF, 0x55]))) \<and>
   (\<exists>s'. rtt_tuner_receive 16 (\<lambda>p. take 2 p = [0x0D, 0x0A]) rx_static_init
            \<lparr>packet = NULL, tuner_packet = NULL\<rparr> [0xAA, 0xBB]
          = Inr (s', \<lparr>packet = NULL, tuner_packet = NULL\<rparr>, []))"
proof -
  let ?chk = "\<lambda>p :: u8 list. take 2 p = [0x0D, 0x0A]"
  let ?out = "\<lparr>packet = NULL, tuner_packet = NULL\<rparr>"
  let ?s = "\<lparr>data_index = 1, command_packet = 0xAA # replicate 15 (0 :: u8)\<rparr>"
  let ?bs =
    "[0x0D, 0x0A, 1, 2, 3, 4, 5, 6, 7, 8, 9, 10, 11, 0x00, 0xFF, 0xFF, 0x55] :: u8 list"
  let ?full = "[0xAA] @ ?bs"
  have a1: "unat (data_index ?s) < 16" and a2: "length (command_packet ?s) = 16"
    and a3: "?full = take (unat (data_index ?s)) (command_packet ?s) @ ?bs"
    by simp_all
  have ex: "\<exists>m. m + 16 \<le> length ?full \<and> ?chk (take 16 (drop m ?full))"
    by (rule exI [of _ 1]) simp
  from receive_outputs [OF a1 a2 a3, of ?chk ?out] ex
  have first: "\<exists>m. m + 16 \<le> length ?full \<and> ?chk (take 16 (drop m ?full)) \<and>
                (\<forall>j<m. \<not> ?chk (take 16 (drop j ?full))) \<and>
                rtt_tuner_receive 16 ?chk ?s ?out ?bs =
                  Inr (\<lparr>data_index = 0, command_packet = take 16 (drop m ?full)\<rparr>,
                       ?out\<lparr>tuner_packet := Addr_cy_capsense_tuner,
                           packet := Addr_command_packet\<rparr>,
                       drop (m + 16) ?full)"
    by (simp only: if_True)
  have b1: "unat (data_index rx_static_init) < 16"
    and b2: "length (command_packet rx_static_init) = 16"
    and b3: "[0xAA, 0xBB] = take (unat (data_index rx_static_init))
               (command_packet rx_static_init) @ [0xAA, 0xBB :: u8]"
    by (simp_all add: rx_static_init_def)
  have nex: "\<not> (\<exists>m. m + 16 \<le> length [0xAA, 0xBB :: u8] \<and>
               ?chk (take 16 (drop m [0xAA, 0xBB])))"
    by simp
  from receive_outputs [OF b1 b2 b3, of ?chk ?out] nex
  have second: "\<exists>s'. rtt_tuner_receive 16 ?chk rx_static_init ?out [0xAA, 0xBB]
                  = Inr (s', ?out, [])"
    by (simp only: if_False)
  from first second show ?thesis
    by auto
qed

text \<open>
  C10. With the packet size 16, from the startup state, through any sequence of
  invocations with any bytes arriving between them: no access of the hook falls outside
  the 16-byte array (no invocation returns the fault), the cursor stays below 16, and
  a further invocation on any bytes returns without fault as well.
\<close>

theorem receive_in_bounds:
  assumes "N = 16"
  shows "\<exists>s' pending'. rx_session N chk rx_static_init [] chunks = Inr (s', pending') \<and>
           unat (data_index s') < 16 \<and> length (command_packet s') = 16 \<and>
           (\<exists>r. rtt_tuner_receive N chk s' out bs = Inr r)"
proof -
  have init: "unat (data_index rx_static_init) < 16"
    "length (command_packet rx_static_init) = 16"
    by (simp_all add: rx_static_init_def)
  obtain s' pending' where
    r: "rx_session 16 chk rx_static_init [] chunks = Inr (s', pending')"
    and lt: "unat (data_index s') < 16" and len: "length (command_packet s') = 16"
    using rx_session_total [OF init, of chk "[]" chunks] by blast
  from receive_total [OF lt len, of chk out bs] r lt len assms show ?thesis
    by auto
qed

text \<open>
  Witness for C10: three invocations, then one more with forty bytes available.
\<close>

theorem receive_in_bounds_witness:
  "\<exists>s' pending'.
      rx_session 16 (\<lambda>p. False) rx_static_init [] [[0xAA, 0xBB], [], [0xCC]]
        = Inr (s', pending') \<and>
      unat (data_index s') < 16 \<and> length (command_packet s') = 16 \<and>
      (\<exists>r. rtt_tuner_receive 16 (\<lambda>p. False) s' \<lparr>packet = NULL, tuner_packet = NULL\<rparr>
              (replicate 40 0xFF) = Inr r)"
  using receive_in_bounds [of 16 "\<lambda>p. False" "[[0xAA, 0xBB], [], [0xCC]]"
      "\<lparr>packet = NULL, tuner_packet = NULL\<rparr>" "replicate 40 0xFF"]
  by simp

text \<open>
  The fault is a branch the model can take: with a packet size of 17 the seventeenth
  store is outside the array.
\<close>

lemma fault_reachable_17:
  "rtt_tuner_receive 17 (\<lambda>p. False) rx_static_init \<lparr>packet = NULL, tuner_packet = NULL\<rparr>
     (replicate 17 0) = Inl OutOfBounds"
  by code_simp

end
